theory Spec2Isabelle
  imports Main "HOL-Library.Word"
begin

unbundle bit_operations_syntax

section \<open>Bytes and strings\<close>

text \<open>
  A Go \<open>[]byte\<close> is a list of 8-bit words, a Go \<open>string\<close> is a \<open>string\<close> (a list of
  8-bit characters). \<open>[]byte(s)\<close> and \<open>string(b)\<close> convert between the two bytewise.
\<close>

type_synonym byte = "8 word"

text \<open>Go's \<open>x << n\<close> and \<open>x >> n\<close> on a \<open>uint8\<close>: bits shifted out are lost.\<close>

definition shl :: "byte \<Rightarrow> nat \<Rightarrow> byte" where
  "shl x n = push_bit n x"

definition shr :: "byte \<Rightarrow> nat \<Rightarrow> byte" where
  "shr x n = drop_bit n x"

definition bytes_of_string :: "string \<Rightarrow> byte list" where
  "bytes_of_string s = map of_char s"


section \<open>The constants of \<open>tunnel/common.go\<close>\<close>

definition maxChunkSize :: nat where "maxChunkSize = 220"
definition maxLabelSize :: nat where "maxLabelSize = 63"
definition maxRetries :: nat where "maxRetries = 3"
definition maxSafeLabelSize :: nat where "maxSafeLabelSize = 40"
definition defaultTLD :: string where "defaultTLD = ''edu''"

definition dnsBase32Alphabet :: string where
  "dnsBase32Alphabet = ''ABCDEFGHIJKLMNOPQRSTUVWXYZ234567''"

section \<open>Go's \<open>strings\<close> helpers\<close>

text \<open>
  \<open>strings.Split(s, ".")\<close>: the substrings between the dots, one more than there are
  dots; the empty string gives one empty part.
\<close>

fun splitDot :: "string \<Rightarrow> string list" where
  "splitDot [] = [[]]"
| "splitDot (c # cs) =
     (if c = CHR ''.'' then [] # splitDot cs
      else (case splitDot cs of
              [] \<Rightarrow> [[c]]
            | p # ps \<Rightarrow> (c # p) # ps))"

text \<open>\<open>strings.Join(parts, ".")\<close>.\<close>

fun joinDot :: "string list \<Rightarrow> string" where
  "joinDot [] = []"
| "joinDot [p] = p"
| "joinDot (p # q # ps) = p @ CHR ''.'' # joinDot (q # ps)"

text \<open>\<open>strings.ReplaceAll(s, ".", "")\<close>.\<close>

definition stripDots :: "string \<Rightarrow> string" where
  "stripDots s = filter (\<lambda>c. c \<noteq> CHR ''.'') s"

text \<open>\<open>strings.TrimSuffix(s, ".")\<close>: one trailing dot is removed, if there is one.\<close>

definition trimSuffixDot :: "string \<Rightarrow> string" where
  "trimSuffixDot s = (if s \<noteq> [] \<and> last s = CHR ''.'' then butlast s else s)"

text \<open>
  The loop \<open>for i := 0; i < len(xs); i += n { ... xs[i:min(i+n, len(xs))] }\<close> that
  \<open>encodeDNSSafe\<close> and \<open>splitDataIntoChunks\<close> share. Every call site passes a positive
  constant (40 or 100); with \<open>n = 0\<close> the source loop would not advance, and the model
  stops there with no chunk.
\<close>

function chunksOf :: "nat \<Rightarrow> 'a list \<Rightarrow> 'a list list" where
  "chunksOf n xs =
     (if n = 0 \<or> xs = [] then [] else take n xs # chunksOf n (drop n xs))"
  by pat_completeness auto
termination
  by (relation "measure (\<lambda>(n, xs). length xs)") auto

declare chunksOf.simps [simp del]

section \<open>Go's \<open>encoding/base32\<close> without padding\<close>

text \<open>
  The encoder and decoder of Go's standard library, which the repository calls and does
  not contain, for an \<open>Encoding\<close> built from a 32-character alphabet with
  \<open>WithPadding(NoPadding)\<close>. The encoder turns each group of five bytes into eight 5-bit
  values and a final group of 1, 2, 3 or 4 bytes into 2, 4, 5 or 7 of them; each value
  indexes the alphabet (\<open>enc.encode[b & 31]\<close>).
\<close>

definition encodeChar :: "string \<Rightarrow> byte \<Rightarrow> char" where
  "encodeChar alphabet b = alphabet ! unat (b AND 31)"

text \<open>
  The eight 5-bit values \<open>b[0..7]\<close> the encoder unpacks from a group of five bytes; a
  byte the last group does not have counts as 0.
\<close>

definition quantumValues :: "byte \<Rightarrow> byte \<Rightarrow> byte \<Rightarrow> byte \<Rightarrow> byte \<Rightarrow> byte list" where
  "quantumValues s0 s1 s2 s3 s4 =
     [shr s0 3,
      shl s0 2 OR shr s1 6,
      shr s1 1,
      shl s1 4 OR shr s2 4,
      shl s2 1 OR shr s3 7,
      shr s3 2,
      shl s3 3 OR shr s4 5,
      s4]"

definition encodeQuantum :: "string \<Rightarrow> byte \<Rightarrow> byte \<Rightarrow> byte \<Rightarrow> byte \<Rightarrow> byte \<Rightarrow> string" where
  "encodeQuantum alphabet s0 s1 s2 s3 s4 =
     map (encodeChar alphabet) (quantumValues s0 s1 s2 s3 s4)"

fun encodeToString :: "string \<Rightarrow> byte list \<Rightarrow> string" where
  "encodeToString alphabet (s0 # s1 # s2 # s3 # s4 # rest) =
     encodeQuantum alphabet s0 s1 s2 s3 s4 @ encodeToString alphabet rest"
| "encodeToString alphabet [s0, s1, s2, s3] = take 7 (encodeQuantum alphabet s0 s1 s2 s3 0)"
| "encodeToString alphabet [s0, s1, s2] = take 5 (encodeQuantum alphabet s0 s1 s2 0 0)"
| "encodeToString alphabet [s0, s1] = take 4 (encodeQuantum alphabet s0 s1 0 0 0)"
| "encodeToString alphabet [s0] = take 2 (encodeQuantum alphabet s0 0 0 0 0)"
| "encodeToString alphabet [] = []"

text \<open>
  The decoder's table: the index of a character in the alphabet, \<open>None\<close> for the table's
  \<open>0xFF\<close> (a character outside the alphabet).
\<close>

definition decodeMap :: "string \<Rightarrow> char \<Rightarrow> byte option" where
  "decodeMap alphabet c = map_of (zip alphabet (map of_nat [0..<32])) c"

text \<open>
  The inner loop of \<open>decode\<close> reads one quantum of up to eight characters. \<open>dbuf\<close> holds
  the values read so far (\<open>j = length dbuf\<close>), the first argument counts the characters
  still to read. The result is the values read, the \<open>end\<close> flag and the unread input;
  \<open>None\<close> is \<open>CorruptInputError\<close>. With \<open>NoPadding\<close> the end of the input inside a
  quantum ends the decoding with \<open>dlen = j\<close>, whatever \<open>j\<close> is. The padding character is
  the rune \<open>-1\<close>, which the comparison \<open>in == byte(enc.padChar)\<close> truncates to the byte
  \<open>0xFF\<close>: that byte takes the padding branch of the source.
\<close>

fun readQuantum :: "string \<Rightarrow> nat \<Rightarrow> byte list \<Rightarrow> string \<Rightarrow> (byte list \<times> bool \<times> string) option" where
  "readQuantum alphabet 0 dbuf src = Some (dbuf, False, src)"
| "readQuantum alphabet (Suc k) dbuf [] = Some (dbuf, True, [])"
| "readQuantum alphabet (Suc k) dbuf (c # src) =
     (if c = CHR 0xFF \<and> 2 \<le> length dbuf \<and> length src < 8 then
        (if length src + length dbuf < 7 then None
         else if \<not> list_all (\<lambda>x. x = CHR 0xFF) (take (7 - length dbuf) src) then None
         else if length dbuf = 1 \<or> length dbuf = 3 \<or> length dbuf = 6 then None
         else Some (dbuf, True, src))
      else (case decodeMap alphabet c of
              None \<Rightarrow> None
            | Some v \<Rightarrow> readQuantum alphabet k (dbuf @ [v]) src))"

text \<open>
  The \<open>switch dlen\<close> that packs the values of a quantum into bytes: 8, 7, 5, 4 and 2
  values give 5, 4, 3, 2 and 1 bytes; any other count (1, 3 or 6) matches no case and gives
  no byte.
\<close>

definition packQuantum :: "byte list \<Rightarrow> byte list" where
  "packQuantum dbuf =
     (let d = dbuf @ replicate (8 - length dbuf) 0;
          n = length dbuf
      in take (if n = 8 then 5 else if n = 7 then 4 else if n = 5 then 3
               else if n = 4 then 2 else if n = 2 then 1 else 0)
           [shl (d ! 0) 3 OR shr (d ! 1) 2,
            shl (d ! 1) 6 OR shl (d ! 2) 1 OR shr (d ! 3) 4,
            shl (d ! 3) 4 OR shr (d ! 4) 1,
            shl (d ! 4) 7 OR shl (d ! 5) 2 OR shr (d ! 6) 3,
            shl (d ! 6) 5 OR (d ! 7)])"

text \<open>The outer loop \<open>for len(src) > 0 && !end\<close>.\<close>

function decodeLoop :: "string \<Rightarrow> string \<Rightarrow> byte list option" where
  "decodeLoop alphabet [] = Some []"
| "decodeLoop alphabet (c # src) =
     (case readQuantum alphabet 8 [] (c # src) of
        None \<Rightarrow> None
      | Some (dbuf, end, rest) \<Rightarrow>
          (if end then Some (packQuantum dbuf)
           else map_option (\<lambda>bs. packQuantum dbuf @ bs) (decodeLoop alphabet rest)))"
  by pat_completeness auto
termination
proof (relation "measure (\<lambda>(a, s). length s)", goal_cases)
  case 1
  show ?case by simp
next
  case (2 alphabet c src x dbuf y e rest)
  have shrink: "length r \<le> length s"
    if "readQuantum alphabet k b s = Some (d, f, r)" for k b s d f r
    using that
    by (induction alphabet k b s rule: readQuantum.induct)
       (auto split: if_splits option.splits)
  have eight: "(8::nat) = Suc 7" by simp
  from 2 have "readQuantum alphabet 8 [] (c # src) = Some (dbuf, e, rest)"
    by simp
  then have "length rest \<le> length src"
    unfolding eight readQuantum.simps
    by (auto split: if_splits option.splits dest: shrink)
  then show ?case by simp
qed

text \<open>\<open>DecodeString\<close> first drops every \<open>\r\<close> and \<open>\n\<close>.\<close>

definition stripNewlines :: "string \<Rightarrow> string" where
  "stripNewlines s = filter (\<lambda>c. c \<noteq> CHR 0x0D \<and> c \<noteq> CHR 0x0A) s"

definition decodeString :: "string \<Rightarrow> string \<Rightarrow> byte list option" where
  "decodeString alphabet s = decodeLoop alphabet (stripNewlines s)"

text \<open>\<open>base32.StdEncoding\<close> uses the RFC 4648 alphabet.\<close>

definition encodeStd :: string where
  "encodeStd = ''ABCDEFGHIJKLMNOPQRSTUVWXYZ234567''"

section \<open>The wire codec of \<open>tunnel/common.go\<close>\<close>

text \<open>
  \<open>encodeDNSSafe\<close>: the sentinel for an empty payload, else the base32 text cut into
  labels of at most 40 characters joined with dots. The validation loop that follows
  replaces the result by the re-split of any label longer than 63.
\<close>

definition encodeDNSSafe :: "byte list \<Rightarrow> string" where
  "encodeDNSSafe data =
     (if data = [] then ''EMPTY''
      else
        let encoded = encodeToString dnsBase32Alphabet data;
            labels = chunksOf maxSafeLabelSize encoded;
            result = joinDot labels
        in foldl (\<lambda>res label.
                    if maxLabelSize < length label
                    then joinDot (chunksOf maxSafeLabelSize label) else res)
             result (splitDot result))"

text \<open>\<open>decodeDNSSafe\<close>: \<open>None\<close> is the base32 decode error.\<close>

definition decodeDNSSafe :: "string \<Rightarrow> byte list option" where
  "decodeDNSSafe s =
     (if s = ''EMPTY'' then Some []
      else decodeString encodeStd (stripDots s))"

definition splitDataIntoChunks :: "byte list \<Rightarrow> nat \<Rightarrow> byte list list" where
  "splitDataIntoChunks data chunkSize = chunksOf chunkSize data"


section \<open>Query names\<close>

text \<open>
  The parsing at the head of \<open>handleDNSRequest\<close>: the name less one trailing dot is split
  on dots; fewer than four parts is the format error (\<open>None\<close>); else the last three parts
  are the TLD, the session id and the sequence, and the parts before them, joined with dots
  again, are the encoded data. The result is \<open>(encodedData, sequence, sessionID, tld)\<close>.
\<close>

definition parseName :: "string \<Rightarrow> (string \<times> string \<times> string \<times> string) option" where
  "parseName name =
     (let parts = splitDot (trimSuffixDot name);
          n = length parts
      in if n < 4 then None
         else Some (joinDot (take (n - 3) parts), parts ! (n - 3), parts ! (n - 2), parts ! (n - 1)))"

text \<open>\<open>dns.Fqdn\<close>: a name that does not end in a dot gets one.\<close>

definition fqdn :: "string \<Rightarrow> string" where
  "fqdn s = (if s \<noteq> [] \<and> last s = CHR ''.'' then s else s @ ''.'')"

text \<open>\<open>fmt.Sprintf("%04x", w)\<close> for a \<open>uint16\<close>: four lower-case hexadecimal digits.\<close>

definition hexDigit :: "nat \<Rightarrow> char" where
  "hexDigit n = ''0123456789abcdef'' ! n"

definition hex4 :: "16 word \<Rightarrow> string" where
  "hex4 w = map (\<lambda>k. hexDigit (unat (drop_bit k w AND 15))) [12, 8, 4, 0]"

text \<open>The name \<open>sendChunk\<close> builds with \<open>"%s.%04x.%s.%s"\<close>, and the name of a poll.\<close>

definition dataName :: "string \<Rightarrow> string \<Rightarrow> byte list \<Rightarrow> 16 word \<Rightarrow> string" where
  "dataName sessionID tld subChunk w =
     encodeDNSSafe subChunk @ ''.'' @ hex4 w @ ''.'' @ sessionID @ ''.'' @ tld"

definition pollName :: "string \<Rightarrow> string \<Rightarrow> string" where
  "pollName sessionID tld = ''AA.ffff.'' @ sessionID @ ''.'' @ tld"

text \<open>The sequence field the server reads from a name the client sends.\<close>

definition seqField :: "string \<Rightarrow> string option" where
  "seqField name = map_option (\<lambda>(encodedData, sequence, sessionID, tld). sequence)
                     (parseName (fqdn name))"

text \<open>
  The reading of the specification's \<open>parseName\<close>: at least four nonempty parts, the third
  from the right of exactly four hexadecimal characters.
\<close>

definition isHexChar :: "char \<Rightarrow> bool" where
  "isHexChar c = (c \<in> set ''0123456789abcdefABCDEF'')"

definition specWellFormed :: "string \<Rightarrow> bool" where
  "specWellFormed name =
     (let parts = splitDot (trimSuffixDot name);
          n = length parts
      in 4 \<le> n \<and> list_all (\<lambda>p. p \<noteq> []) parts
         \<and> length (parts ! (n - 3)) = 4 \<and> list_all isHexChar (parts ! (n - 3)))"

section \<open>The server (\<open>DNSServer\<close>, source file \<open>unnamed/part_002\<close>)\<close>

text \<open>
  A backend connection is a handle. What the server does to the backend is kept as a list
  of effects, oldest first.
\<close>

type_synonym conn = nat

datatype effect = Dialed conn | ConnClosed conn | Wrote conn "byte list"

record Session =
  conn :: "conn option"
  lastActive :: nat
  closed :: bool

record DNSServer =
  sessions :: "string \<rightharpoonup> Session"
  backend :: "effect list"

text \<open>
  What the world answers during one request: the clock, the outcome of a dial (\<open>None\<close> is
  any failure of \<open>reconnect\<close>: address, lookup, no IPv4 address, connect), of the read
  \<open>handlePoll\<close> makes and of the write \<open>Session.Write\<close> makes. The read's error cases are
  in the order the source tests them: \<open>io.EOF\<close>, a text containing \<open>connection reset\<close>,
  a timeout, anything else.
\<close>

datatype readResult = ReadData "byte list" | ReadEOF | ReadReset | ReadTimeout | ReadError

record env =
  now :: nat
  dial :: "conn option"
  readRes :: readResult
  writeOk :: bool

datatype rcode = RcodeSuccess | RcodeFormatError | RcodeServerFailure

text \<open>A reply: its RCODE and the \<open>Txt\<close> of every TXT record in its answer section.\<close>

record reply =
  rcode :: rcode
  answer :: "string list list"

datatype outcome = NoReply | Reply reply | Panic

text \<open>\<open>Session.reconnect\<close>: the boolean is \<open>err == nil\<close>.\<close>

definition reconnect :: "env \<Rightarrow> Session \<Rightarrow> effect list \<Rightarrow> bool \<times> Session \<times> effect list" where
  "reconnect e s fx =
     (let fx1 = (case conn s of None \<Rightarrow> fx | Some c \<Rightarrow> fx @ [ConnClosed c])
      in case dial e of
           None \<Rightarrow> (False, s, fx1)
         | Some c \<Rightarrow> (True, s\<lparr>conn := Some c, lastActive := now e\<rparr>, fx1 @ [Dialed c]))"

text \<open>\<open>Session.Close\<close>.\<close>

definition sessionClose :: "Session \<Rightarrow> effect list \<Rightarrow> Session \<times> effect list" where
  "sessionClose s fx =
     (if \<not> closed s then
        (case conn s of
           None \<Rightarrow> (s\<lparr>closed := True\<rparr>, fx)
         | Some c \<Rightarrow> (s\<lparr>closed := True, conn := None\<rparr>, fx @ [ConnClosed c]))
      else (s, fx))"

text \<open>\<open>Session.Write\<close>: the boolean is \<open>err == nil\<close>.\<close>

definition sessionWrite :: "env \<Rightarrow> Session \<Rightarrow> byte list \<Rightarrow> effect list \<Rightarrow> bool \<times> Session \<times> effect list" where
  "sessionWrite e s data fx =
     (case conn s of
        None \<Rightarrow> (False, s, fx)
      | Some c \<Rightarrow>
          if writeOk e then (True, s\<lparr>lastActive := now e\<rparr>, fx @ [Wrote c data])
          else (False, s\<lparr>conn := None\<rparr>, fx @ [ConnClosed c]))"

text \<open>
  \<open>getSession\<close>: an entry with a connection is returned as it is; a missing entry, or one
  whose connection is nil, is replaced by a new session that dials the backend. A failed
  dial returns the error (\<open>None\<close>) and leaves the table as it was.
\<close>

definition getSession :: "env \<Rightarrow> DNSServer \<Rightarrow> string \<Rightarrow> DNSServer \<times> Session option" where
  "getSession e s sessionID =
     (let create =
            (case reconnect e \<lparr>conn = None, lastActive = now e, closed = False\<rparr> (backend s) of
               (False, session, fx) \<Rightarrow> (s\<lparr>backend := fx\<rparr>, None)
             | (True, session, fx) \<Rightarrow>
                 (s\<lparr>sessions := (sessions s)(sessionID \<mapsto> session), backend := fx\<rparr>,
                  Some session))
      in case sessions s sessionID of
           None \<Rightarrow> create
         | Some session \<Rightarrow> if conn session = None then create else (s, Some session))"

text \<open>
  \<open>handlePoll\<close>, on the session \<open>getSession\<close> returned (never nil). A session that is not
  closed and has no connection would dereference nil.
\<close>

datatype pollResult = PollBytes "byte list" | PollError | PollPanic

definition handlePoll :: "env \<Rightarrow> Session \<Rightarrow> effect list \<Rightarrow> pollResult \<times> Session \<times> effect list" where
  "handlePoll e session fx =
     (if closed session then (PollBytes (bytes_of_string ''CLOSED''), session, fx)
      else case conn session of
        None \<Rightarrow> (PollPanic, session, fx)
      | Some c \<Rightarrow>
          (case readRes e of
             ReadEOF \<Rightarrow>
               (let (session', fx') = sessionClose session fx
                in (PollBytes (bytes_of_string ''CLOSED''), session', fx'))
           | ReadReset \<Rightarrow>
               (let (session', fx') = sessionClose session fx
                in (PollBytes (bytes_of_string ''CLOSED''), session', fx'))
           | ReadTimeout \<Rightarrow> (PollBytes (bytes_of_string ''EMPTY''), session, fx)
           | ReadError \<Rightarrow> (PollError, session, fx)
           | ReadData d \<Rightarrow>
               (if take maxChunkSize d = [] then (PollBytes (bytes_of_string ''EMPTY''), session, fx)
                else (PollBytes (take maxChunkSize d), session, fx))))"

text \<open>The tail of \<open>handleDNSRequest\<close> that cuts a long response text into TXT strings.\<close>

definition responseChunks :: "string \<Rightarrow> string list" where
  "responseChunks responseText =
     (if 180 < length responseText then chunksOf 180 responseText else [responseText])"

text \<open>
  \<open>handleDNSRequest\<close>, on the names of the request's questions. The session is a pointer
  into the table, so what \<open>handlePoll\<close> and \<open>Session.Write\<close> do to it is written back
  under its session id. One request is handled at a time.
\<close>

definition handleDNSRequest :: "env \<Rightarrow> DNSServer \<Rightarrow> string list \<Rightarrow> DNSServer \<times> outcome" where
  "handleDNSRequest e s questions =
     (case questions of
        [] \<Rightarrow> (s, NoReply)
      | name # _ \<Rightarrow>
          (case parseName name of
             None \<Rightarrow> (s, Reply \<lparr>rcode = RcodeFormatError, answer = []\<rparr>)
           | Some (encodedData, sequence, sessionID, tld) \<Rightarrow>
               (case getSession e s sessionID of
                  (s1, None) \<Rightarrow> (s1, Reply \<lparr>rcode = RcodeServerFailure, answer = []\<rparr>)
                | (s1, Some session) \<Rightarrow>
                    if sequence = ''ffff'' then
                      (case handlePoll e session (backend s1) of
                         (PollPanic, session', fx) \<Rightarrow> (s1, Panic)
                       | (PollError, session', fx) \<Rightarrow>
                           (s1\<lparr>sessions := (sessions s1)(sessionID \<mapsto> session'), backend := fx\<rparr>,
                            Reply \<lparr>rcode = RcodeServerFailure, answer = []\<rparr>)
                       | (PollBytes response, session', fx) \<Rightarrow>
                           (s1\<lparr>sessions := (sessions s1)(sessionID \<mapsto> session'), backend := fx\<rparr>,
                            Reply \<lparr>rcode = RcodeSuccess,
                                   answer = [if response = [] then [''EMPTY'']
                                             else splitDot (encodeDNSSafe response)]\<rparr>))
                    else
                      (case decodeDNSSafe encodedData of
                         None \<Rightarrow> (s1, Reply \<lparr>rcode = RcodeFormatError, answer = []\<rparr>)
                       | Some decodedData \<Rightarrow>
                           if decodedData \<noteq> [] then
                             (case sessionWrite e session decodedData (backend s1) of
                                (False, session', fx) \<Rightarrow>
                                  (s1\<lparr>sessions := (sessions s1)(sessionID \<mapsto> session'), backend := fx\<rparr>,
                                   Reply \<lparr>rcode = RcodeServerFailure, answer = []\<rparr>)
                              | (True, session', fx) \<Rightarrow>
                                  (s1\<lparr>sessions := (sessions s1)(sessionID \<mapsto> session'), backend := fx\<rparr>,
                                   Reply \<lparr>rcode = RcodeSuccess, answer = [responseChunks ''EMPTY'']\<rparr>))
                           else (s1, Reply \<lparr>rcode = RcodeSuccess, answer = [responseChunks ''EMPTY'']\<rparr>)))))"

section \<open>The client (\<open>DNSClient\<close>, source file \<open>unnamed/part_001\<close>)\<close>

text \<open>
  The network answers each \<open>Exchange\<close>: the \<open>i\<close>-th exchange of a connection, for the
  question name sent, ends in an error whose text contains \<open>i/o timeout\<close>, in another
  error, or in a response with an RCODE and answer records.
\<close>

datatype rr = TXT "string list" | OtherRR

datatype exchange = ExTimeout | ExError | ExResponse rcode "rr list"

type_synonym network = "nat \<Rightarrow> string \<Rightarrow> exchange"

text \<open>
  The client side of a connection: how many exchanges it has made, and the names it has
  passed to \<open>sendQuery\<close>, oldest first.
\<close>

record wire =
  exchanges :: nat
  sent :: "string list"

text \<open>
  The retry loop of \<open>sendQuery\<close>, with the attempts left. The result \<open>None\<close> is an error,
  \<open>Some b\<close> the bytes returned (\<open>nil\<close> and the empty slice are both \<open>[]\<close>).
\<close>

fun sendQueryLoop :: "network \<Rightarrow> string \<Rightarrow> nat \<Rightarrow> nat \<Rightarrow> byte list option \<times> nat" where
  "sendQueryLoop net name 0 i = (None, i)"
| "sendQueryLoop net name (Suc k) i =
     (case net i name of
        ExTimeout \<Rightarrow> sendQueryLoop net name k (Suc i)
      | ExError \<Rightarrow> (None, Suc i)
      | ExResponse rc answers \<Rightarrow>
          if rc \<noteq> RcodeSuccess then sendQueryLoop net name k (Suc i)
          else (case answers of
                  TXT txt # _ \<Rightarrow>
                    (let responseText = concat txt
                     in if responseText = ''EMPTY'' then (Some [], Suc i)
                        else (decodeDNSSafe responseText, Suc i))
                | _ \<Rightarrow> (Some [], Suc i)))"

definition sendQuery :: "network \<Rightarrow> string \<Rightarrow> wire \<Rightarrow> byte list option \<times> wire" where
  "sendQuery net name w =
     (case sendQueryLoop net (fqdn name) maxRetries (exchanges w) of
        (r, i) \<Rightarrow> (r, \<lparr>exchanges = i, sent = sent w @ [name]\<rparr>))"

text \<open>
  The loop of \<open>sendChunk\<close> over the subchunks from index \<open>i\<close> on; the boolean is
  \<open>err == nil\<close>.
\<close>

fun sendSubChunks :: "network \<Rightarrow> string \<Rightarrow> string \<Rightarrow> 16 word \<Rightarrow> nat \<Rightarrow> byte list list \<Rightarrow> wire \<Rightarrow> bool \<times> wire" where
  "sendSubChunks net sessionID tld sequence i [] w = (True, w)"
| "sendSubChunks net sessionID tld sequence i (subChunk # chunks) w =
     (case sendQuery net (dataName sessionID tld subChunk (sequence + of_nat i)) w of
        (None, w') \<Rightarrow> (False, w')
      | (Some r, w') \<Rightarrow> sendSubChunks net sessionID tld sequence (Suc i) chunks w')"

definition sendChunk :: "network \<Rightarrow> string \<Rightarrow> string \<Rightarrow> byte list \<Rightarrow> 16 word \<Rightarrow> wire \<Rightarrow> bool \<times> wire" where
  "sendChunk net sessionID tld chunk sequence w =
     sendSubChunks net sessionID tld sequence 0 (splitDataIntoChunks chunk 100) w"

text \<open>
  The read goroutine of \<open>handleConnection\<close>, over the successive results of
  \<open>conn.Read(buffer)\<close> (at most \<open>maxChunkSize\<close> bytes each); the list ends where the read
  fails. It stops at the first failed \<open>sendChunk\<close>.
\<close>

fun uplink :: "network \<Rightarrow> string \<Rightarrow> string \<Rightarrow> 16 word \<Rightarrow> byte list list \<Rightarrow> wire \<Rightarrow> wire" where
  "uplink net sessionID tld sequence [] w = w"
| "uplink net sessionID tld sequence (r # reads) w =
     (if take maxChunkSize r \<noteq> [] then
        (case sendChunk net sessionID tld (take maxChunkSize r) sequence w of
           (False, w') \<Rightarrow> w'
         | (True, w') \<Rightarrow> uplink net sessionID tld (sequence + 1) reads w')
      else uplink net sessionID tld sequence reads w)"

definition handleConnection_uplink :: "network \<Rightarrow> string \<Rightarrow> string \<Rightarrow> byte list list \<Rightarrow> wire" where
  "handleConnection_uplink net sessionID tld reads =
     uplink net sessionID tld 0 reads \<lparr>exchanges = 0, sent = []\<rparr>"





text \<open>A network on which every exchange succeeds with the answer \<open>EMPTY\<close>.\<close>

definition quietNetwork :: network where
  "quietNetwork i name = ExResponse RcodeSuccess [TXT [''EMPTY'']]"



section \<open>The codec: bits and the alphabet\<close>

lemma bit_byte_ge: "8 \<le> n \<Longrightarrow> \<not> bit (x::byte) n"
  by (auto dest: bit_imp_le_length)

lemma bit_shl: "bit (shl x n) i \<longleftrightarrow> n \<le> i \<and> i < 8 \<and> bit x (i - n)"
  by (auto simp: shl_def bit_simps)

lemma bit_shr: "bit (shr x n) i \<longleftrightarrow> bit x (n + i)"
  by (simp add: shr_def bit_simps)

lemma byte_eqI:
  fixes a b :: byte
  assumes "bit a 0 = bit b 0" "bit a 1 = bit b 1" "bit a 2 = bit b 2" "bit a 3 = bit b 3"
    "bit a 4 = bit b 4" "bit a 5 = bit b 5" "bit a 6 = bit b 6" "bit a 7 = bit b 7"
  shows "a = b"
proof (rule bit_word_eqI)
  fix n assume "n < LENGTH(8)"
  then have "n \<in> {0, 1, 2, 3, 4, 5, 6, 7}"
    by simp arith
  with assms show "bit a n = bit b n"
    by auto
qed

lemmas bit_pack = bit_shl bit_shr bit_or_iff bit_and_iff bit_byte_ge eval_nat_numeral

lemma pack8: "packQuantum (map (\<lambda>v. v AND 31) (quantumValues s0 s1 s2 s3 s4)) = [s0,s1,s2,s3,s4]"
  apply (simp add: packQuantum_def quantumValues_def)
  apply (intro conjI byte_eqI)
  apply (simp_all add: bit_pack)
  done

lemma pack7: "packQuantum (map (\<lambda>v. v AND 31) (take 7 (quantumValues s0 s1 s2 s3 0))) = [s0,s1,s2,s3]"
  apply (simp add: packQuantum_def quantumValues_def)
  apply (intro conjI byte_eqI)
  apply (simp_all add: bit_pack)
  done

lemma pack5: "packQuantum (map (\<lambda>v. v AND 31) (take 5 (quantumValues s0 s1 s2 0 0))) = [s0,s1,s2]"
  apply (simp add: packQuantum_def quantumValues_def)
  apply (intro conjI byte_eqI)
  apply (simp_all add: bit_pack)
  done

lemma pack4: "packQuantum (map (\<lambda>v. v AND 31) (take 4 (quantumValues s0 s1 0 0 0))) = [s0,s1]"
  apply (simp add: packQuantum_def quantumValues_def)
  apply (intro conjI byte_eqI)
  apply (simp_all add: bit_pack)
  done

lemma pack2: "packQuantum (map (\<lambda>v. v AND 31) (take 2 (quantumValues s0 0 0 0 0))) = [s0]"
  apply (simp add: packQuantum_def quantumValues_def)
  apply (intro conjI byte_eqI)
  apply (simp_all add: bit_pack)
  done

lemma unat_and31: "unat ((v::byte) AND 31) < 32"
proof -
  have "unat (v AND 31) \<le> unat (31 :: byte)"
    by (rule word_and_le1 [THEN word_le_nat_alt [THEN iffD1]])
  then show ?thesis by simp
qed

lemma alphabet_length: "length dnsBase32Alphabet = 32"
  by (simp add: dnsBase32Alphabet_def)

lemma alphabet_distinct: "distinct dnsBase32Alphabet"
  by (simp add: dnsBase32Alphabet_def)

lemma encodeStd_eq: "encodeStd = dnsBase32Alphabet"
  by (simp add: dnsBase32Alphabet_def encodeStd_def)

lemma encodeChar_in: "encodeChar dnsBase32Alphabet v \<in> set dnsBase32Alphabet"
  unfolding encodeChar_def using unat_and31 [of v] by (simp add: alphabet_length)

lemma decodeMap_encodeChar:
  "decodeMap encodeStd (encodeChar dnsBase32Alphabet v) = Some (v AND 31)"
proof -
  let ?n = "unat (v AND 31)"
  have n: "?n < 32" by (rule unat_and31)
  have "map_of (zip dnsBase32Alphabet (map of_nat [0..<32])) (dnsBase32Alphabet ! ?n)
          = Some ((map of_nat [0..<32] :: byte list) ! ?n)"
    using n by (intro map_of_zip_nth) (simp_all add: alphabet_length alphabet_distinct)
  also have "(map of_nat [0..<32] :: byte list) ! ?n = v AND 31"
    using n by simp
  finally show ?thesis by (simp add: decodeMap_def encodeChar_def encodeStd_eq)
qed

lemma alphabet_not_special:
  "c \<in> set dnsBase32Alphabet \<Longrightarrow>
     c \<noteq> CHR 0xFF \<and> c \<noteq> CHR ''.'' \<and> c \<noteq> CHR 0x0D \<and> c \<noteq> CHR 0x0A"
  by (auto simp: dnsBase32Alphabet_def)

lemma readQuantum_full:
  "readQuantum encodeStd (length vs) dbuf (map (encodeChar dnsBase32Alphabet) vs @ r)
     = Some (dbuf @ map (\<lambda>v. v AND 31) vs, False, r)"
proof (induction vs arbitrary: dbuf)
  case Nil
  then show ?case by simp
next
  case (Cons v vs)
  have "encodeChar dnsBase32Alphabet v \<noteq> CHR 0xFF"
    using alphabet_not_special [OF encodeChar_in] by blast
  then show ?case
    using Cons.IH [of "dbuf @ [v AND 31]"] by (simp add: decodeMap_encodeChar)
qed

lemma readQuantum_short:
  "length vs < k \<Longrightarrow>
   readQuantum encodeStd k dbuf (map (encodeChar dnsBase32Alphabet) vs)
     = Some (dbuf @ map (\<lambda>v. v AND 31) vs, True, [])"
proof (induction vs arbitrary: dbuf k)
  case Nil
  then show ?case by (cases k) simp_all
next
  case (Cons v vs)
  from Cons.prems obtain k' where k: "k = Suc k'" "length vs < k'"
    by (cases k) auto
  have "encodeChar dnsBase32Alphabet v \<noteq> CHR 0xFF"
    using alphabet_not_special [OF encodeChar_in] by blast
  then show ?case
    using Cons.IH [of k' "dbuf @ [v AND 31]"] k by (simp add: decodeMap_encodeChar)
qed

lemma decodeLoop_full:
  assumes "length vs = 8"
  shows "decodeLoop encodeStd (map (encodeChar dnsBase32Alphabet) vs @ r)
     = map_option (\<lambda>bs. packQuantum (map (\<lambda>v. v AND 31) vs) @ bs) (decodeLoop encodeStd r)"
proof -
  obtain v vs' where vs: "vs = v # vs'" using assms by (cases vs) auto
  have "readQuantum encodeStd 8 [] (map (encodeChar dnsBase32Alphabet) vs @ r)
     = Some (map (\<lambda>v. v AND 31) vs, False, r)"
    using readQuantum_full [of vs "[]" r] assms by simp
  then show ?thesis unfolding vs by simp
qed

lemma decodeLoop_short:
  assumes "vs \<noteq> []" "length vs < 8"
  shows "decodeLoop encodeStd (map (encodeChar dnsBase32Alphabet) vs)
     = Some (packQuantum (map (\<lambda>v. v AND 31) vs))"
proof -
  obtain v vs' where vs: "vs = v # vs'" using assms by (cases vs) auto
  have "readQuantum encodeStd 8 [] (map (encodeChar dnsBase32Alphabet) vs)
     = Some (map (\<lambda>v. v AND 31) vs, True, [])"
    using readQuantum_short [of vs 8 "[]"] assms by simp
  then show ?thesis unfolding vs by simp
qed

lemma encodeQuantum_values:
  "encodeQuantum a s0 s1 s2 s3 s4 = map (encodeChar a) (quantumValues s0 s1 s2 s3 s4)"
  by (simp add: encodeQuantum_def)

lemma length_quantumValues: "length (quantumValues s0 s1 s2 s3 s4) = 8"
  by (simp add: quantumValues_def)

lemma quantumValues_neq_Nil: "quantumValues s0 s1 s2 s3 s4 \<noteq> []"
  by (simp add: quantumValues_def)

lemma decodeLoop_encodeToString:
  "a = dnsBase32Alphabet \<Longrightarrow> decodeLoop encodeStd (encodeToString a P) = Some P"
proof (induction a P rule: encodeToString.induct)
  case (1 a s0 s1 s2 s3 s4 rest)
  then show ?case
    by (simp add: encodeQuantum_values decodeLoop_full length_quantumValues quantumValues_neq_Nil pack8
        del: map_append)
next
  case (2 a s0 s1 s2 s3)
  then show ?case
    using decodeLoop_short [of "take 7 (quantumValues s0 s1 s2 s3 0)"]
    by (simp add: encodeQuantum_values length_quantumValues quantumValues_neq_Nil pack7 take_map)
next
  case (3 a s0 s1 s2)
  then show ?case
    using decodeLoop_short [of "take 5 (quantumValues s0 s1 s2 0 0)"]
    by (simp add: encodeQuantum_values length_quantumValues quantumValues_neq_Nil pack5 take_map)
next
  case (4 a s0 s1)
  then show ?case
    using decodeLoop_short [of "take 4 (quantumValues s0 s1 0 0 0)"]
    by (simp add: encodeQuantum_values length_quantumValues quantumValues_neq_Nil pack4 take_map)
next
  case (5 a s0)
  then show ?case
    using decodeLoop_short [of "take 2 (quantumValues s0 0 0 0 0)"]
    by (simp add: encodeQuantum_values length_quantumValues quantumValues_neq_Nil pack2 take_map)
next
  case (6 a)
  then show ?case by simp
qed


lemma chunksOf_Nil [simp]: "chunksOf n [] = []"
  by (simp add: chunksOf.simps)

lemma chunksOf_concat: "0 < n \<Longrightarrow> concat (chunksOf n xs) = xs"
proof (induction n xs rule: chunksOf.induct)
  case (1 n xs)
  then show ?case by (cases "xs = []") (simp_all add: chunksOf.simps [of n xs])
qed

lemma chunksOf_member:
  "c \<in> set (chunksOf n xs) \<Longrightarrow> length c \<le> n \<and> c \<noteq> [] \<and> set c \<subseteq> set xs"
proof (induction n xs rule: chunksOf.induct)
  case (1 n xs)
  show ?case
  proof (cases "n = 0 \<or> xs = []")
    case True
    with "1.prems" show ?thesis by (simp add: chunksOf.simps [of n xs])
  next
    case False
    with "1.prems" have "c = take n xs \<or> c \<in> set (chunksOf n (drop n xs))"
      by (simp add: chunksOf.simps [of n xs])
    then show ?thesis
    proof
      assume "c = take n xs"
      with False show ?thesis by (auto dest: in_set_takeD)
    next
      assume "c \<in> set (chunksOf n (drop n xs))"
      with "1.IH" False show ?thesis by (auto dest: in_set_dropD)
    qed
  qed
qed

lemma chunksOf_neq_Nil: "0 < n \<Longrightarrow> xs \<noteq> [] \<Longrightarrow> chunksOf n xs \<noteq> []"
  by (simp add: chunksOf.simps [of n xs])

lemma splitDot_neq_Nil [simp]: "splitDot s \<noteq> []"
  by (induction s) (auto split: list.splits)

lemma splitDot_nodot: "CHR ''.'' \<notin> set s \<Longrightarrow> splitDot s = [s]"
  by (induction s) auto

lemma splitDot_append: "splitDot (a @ CHR ''.'' # b) = splitDot a @ splitDot b"
proof (induction a)
  case Nil
  then show ?case by simp
next
  case (Cons c a)
  obtain p ps where "splitDot a = p # ps"
    using splitDot_neq_Nil [of a] by (cases "splitDot a") auto
  with Cons show ?case by simp
qed

lemma splitDot_parts: "p \<in> set (splitDot s) \<Longrightarrow> CHR ''.'' \<notin> set p"
proof (induction s arbitrary: p)
  case Nil
  then show ?case by simp
next
  case (Cons c s)
  obtain q qs where q: "splitDot s = q # qs"
    using splitDot_neq_Nil [of s] by (cases "splitDot s") auto
  with Cons show ?case by (auto split: if_splits)
qed

lemma splitDot_joinDot:
  "ps \<noteq> [] \<Longrightarrow> (\<And>p. p \<in> set ps \<Longrightarrow> CHR ''.'' \<notin> set p) \<Longrightarrow> splitDot (joinDot ps) = ps"
proof (induction ps rule: joinDot.induct)
  case 1
  then show ?case by simp
next
  case (2 p)
  then show ?case by (simp add: splitDot_nodot)
next
  case (3 p q ps)
  then show ?case by (simp add: splitDot_append splitDot_nodot)
qed

lemma stripDots_joinDot:
  "(\<And>p. p \<in> set ps \<Longrightarrow> CHR ''.'' \<notin> set p) \<Longrightarrow> stripDots (joinDot ps) = concat ps"
proof (induction ps rule: joinDot.induct)
  case 1
  then show ?case by (simp add: stripDots_def)
next
  case (2 p)
  then have "CHR ''.'' \<notin> set p" by simp
  then show ?case by (auto simp: stripDots_def filter_id_conv)
next
  case (3 p q ps)
  then have "CHR ''.'' \<notin> set p" by simp
  then have "filter (\<lambda>c. c \<noteq> CHR ''.'') p = p" by (auto simp: filter_id_conv)
  with 3 show ?case by (simp add: stripDots_def)
qed

lemma foldl_resplit_id:
  "(\<And>l. l \<in> set ls \<Longrightarrow> length l \<le> maxLabelSize) \<Longrightarrow>
   foldl (\<lambda>res label. if maxLabelSize < length label then f label else res) r ls = r"
  by (induction ls arbitrary: r) (auto simp: not_less [symmetric])

lemma encodeToString_alphabet:
  "a = dnsBase32Alphabet \<Longrightarrow> set (encodeToString a P) \<subseteq> set dnsBase32Alphabet"
  by (induction a P rule: encodeToString.induct)
     (auto simp: encodeQuantum_values encodeChar_in take_map dest!: in_set_takeD)

lemma encodeToString_neq_Nil: "P \<noteq> [] \<Longrightarrow> encodeToString a P \<noteq> []"
  by (induction a P rule: encodeToString.induct)
     (simp_all add: encodeQuantum_values quantumValues_def)

lemma label_nodot:
  assumes "p \<in> set (chunksOf n (encodeToString dnsBase32Alphabet P))"
  shows "CHR ''.'' \<notin> set p"
proof -
  have "set p \<subseteq> set dnsBase32Alphabet"
    using chunksOf_member [OF assms] encodeToString_alphabet [OF refl, of P] by blast
  then show ?thesis using alphabet_not_special by blast
qed

lemma encodeDNSSafe_labels:
  assumes "P \<noteq> []"
  shows "encodeDNSSafe P = joinDot (chunksOf maxSafeLabelSize (encodeToString dnsBase32Alphabet P))"
    and "splitDot (encodeDNSSafe P) = chunksOf maxSafeLabelSize (encodeToString dnsBase32Alphabet P)"
proof -
  let ?enc = "encodeToString dnsBase32Alphabet P"
  let ?labels = "chunksOf maxSafeLabelSize ?enc"
  have ne: "?labels \<noteq> []"
    using assms by (intro chunksOf_neq_Nil encodeToString_neq_Nil) (simp_all add: maxSafeLabelSize_def)
  have split: "splitDot (joinDot ?labels) = ?labels"
    using ne label_nodot by (intro splitDot_joinDot) blast+
  have "\<And>l. l \<in> set ?labels \<Longrightarrow> length l \<le> maxLabelSize"
    using chunksOf_member [of _ maxSafeLabelSize ?enc]
    by (fastforce simp: maxSafeLabelSize_def maxLabelSize_def)
  then show 1: "encodeDNSSafe P = joinDot ?labels"
    using assms by (simp add: encodeDNSSafe_def Let_def split foldl_resplit_id)
  show "splitDot (encodeDNSSafe P) = ?labels"
    by (simp add: 1 split)
qed

lemma stripNewlines_alphabet:
  "set s \<subseteq> set dnsBase32Alphabet \<Longrightarrow> stripNewlines s = s"
  unfolding stripNewlines_def filter_id_conv using alphabet_not_special by blast

lemma stripDots_encodeDNSSafe:
  assumes "P \<noteq> []"
  shows "stripDots (encodeDNSSafe P) = encodeToString dnsBase32Alphabet P"
  using assms label_nodot
  by (simp add: encodeDNSSafe_labels(1) stripDots_joinDot chunksOf_concat maxSafeLabelSize_def)

lemma decodeString_encodeDNSSafe:
  assumes "P \<noteq> []"
  shows "decodeString encodeStd (stripDots (encodeDNSSafe P)) = Some P"
  using assms
  by (simp add: stripDots_encodeDNSSafe decodeString_def stripNewlines_alphabet
      encodeToString_alphabet decodeLoop_encodeToString)

lemma decode_EMPTY_text: "decodeString encodeStd ''EMPTY'' = Some [0x23, 0x1F, 0x3C]"
  by code_simp

lemma encode_collision: "encodeDNSSafe [0x23, 0x1F, 0x3C] = ''EMPTY''"
  by code_simp

lemma encodeDNSSafe_EMPTY_iff:
  "encodeDNSSafe P = ''EMPTY'' \<longleftrightarrow> P = [] \<or> P = [0x23, 0x1F, 0x3C]"
proof
  assume e: "encodeDNSSafe P = ''EMPTY''"
  show "P = [] \<or> P = [0x23, 0x1F, 0x3C]"
  proof (cases "P = []")
    case False
    have "decodeString encodeStd (stripDots (encodeDNSSafe P)) = Some P"
      using False by (rule decodeString_encodeDNSSafe)
    moreover have "stripDots ''EMPTY'' = ''EMPTY''" by (simp add: stripDots_def)
    ultimately show ?thesis using e decode_EMPTY_text by simp
  qed simp
next
  assume "P = [] \<or> P = [0x23, 0x1F, 0x3C]"
  then show "encodeDNSSafe P = ''EMPTY''"
  proof
    assume "P = []" then show ?thesis by (simp add: encodeDNSSafe_def)
  next
    assume "P = [0x23, 0x1F, 0x3C]" then show ?thesis by (simp only: encode_collision)
  qed
qed

lemma decodeDNSSafe_encodeDNSSafe:
  "decodeDNSSafe (encodeDNSSafe P) = (if P = [0x23, 0x1F, 0x3C] then Some [] else Some P)"
proof (cases "P = [] \<or> P = [0x23, 0x1F, 0x3C]")
  case True
  then have "encodeDNSSafe P = ''EMPTY''" by (simp add: encodeDNSSafe_EMPTY_iff)
  with True show ?thesis by (auto simp: decodeDNSSafe_def)
next
  case False
  then have "encodeDNSSafe P \<noteq> ''EMPTY''" by (simp add: encodeDNSSafe_EMPTY_iff)
  with False show ?thesis by (simp add: decodeDNSSafe_def decodeString_encodeDNSSafe)
qed


section \<open>The codec: claims\<close>

text \<open>
  C7. For every byte payload \<open>P\<close>, every dot-separated label of \<open>encodeDNSSafe P\<close> has
  length at most 63, contains no dot, and consists only of characters of the alphabet
  \<open>ABCDEFGHIJKLMNOPQRSTUVWXYZ234567\<close>; the label of the empty payload is \<open>EMPTY\<close>,
  whose letters are in the alphabet too.
\<close>

theorem C7_label_shape:
  "(\<forall>label \<in> set (splitDot (encodeDNSSafe P)).
      length label \<le> 63 \<and> CHR ''.'' \<notin> set label \<and> set label \<subseteq> set dnsBase32Alphabet)
   \<and> encodeDNSSafe [] = ''EMPTY''"
proof (cases "P = []")
  case True
  then show ?thesis by (simp add: encodeDNSSafe_def dnsBase32Alphabet_def)
next
  case False
  let ?enc = "encodeToString dnsBase32Alphabet P"
  have "encodeDNSSafe [] = ''EMPTY''" by (simp add: encodeDNSSafe_def)
  moreover have "\<forall>label \<in> set (splitDot (encodeDNSSafe P)).
      length label \<le> 63 \<and> CHR ''.'' \<notin> set label \<and> set label \<subseteq> set dnsBase32Alphabet"
  proof
    fix label assume "label \<in> set (splitDot (encodeDNSSafe P))"
    then have l: "label \<in> set (chunksOf maxSafeLabelSize ?enc)"
      using encodeDNSSafe_labels(2) [OF False] by simp
    have "length label \<le> 40" using chunksOf_member [OF l] by (simp add: maxSafeLabelSize_def)
    moreover have "set label \<subseteq> set dnsBase32Alphabet"
      using chunksOf_member [OF l] encodeToString_alphabet [OF refl, of P] by blast
    moreover have "CHR ''.'' \<notin> set label" using l by (rule label_nodot)
    ultimately show "length label \<le> 63 \<and> CHR ''.'' \<notin> set label \<and> set label \<subseteq> set dnsBase32Alphabet"
      by simp
  qed
  ultimately show ?thesis by simp
qed

theorem C7_label_shape_witness:
  "''IFAUC'' \<in> set (splitDot (encodeDNSSafe [0x41, 0x41, 0x41]))
   \<and> length ''IFAUC'' \<le> 63 \<and> CHR ''.'' \<notin> set ''IFAUC''
   \<and> set ''IFAUC'' \<subseteq> set dnsBase32Alphabet"
proof -
  have m: "''IFAUC'' \<in> set (splitDot (encodeDNSSafe [0x41, 0x41, 0x41]))"
    by code_simp
  with C7_label_shape [of "[0x41, 0x41, 0x41]"] show ?thesis by blast
qed

text \<open>
  C1. Decoding the encoding of a payload of 1 to 100 bytes returns the payload. The
  three bytes \<open>23 1F 3C\<close> encode to the base32 text \<open>EMPTY\<close>, which \<open>decodeDNSSafe\<close>
  takes for the sentinel of the empty payload: they decode to no bytes. Every other
  payload, of any length, decodes to itself (\<open>decodeDNSSafe_encodeDNSSafe\<close>). A read of
  these three bytes is sent as \<open>EMPTY.0000.ABCDEFG.edu\<close>; the server acknowledges it and
  writes nothing to the backend.
\<close>

theorem C1_sentinel_collision:
  "encodeDNSSafe [0x23, 0x1F, 0x3C] = ''EMPTY''
   \<and> decodeDNSSafe (encodeDNSSafe [0x23, 0x1F, 0x3C]) = Some []
   \<and> decodeDNSSafe (encodeDNSSafe [0x23, 0x1F, 0x3C]) \<noteq> Some [0x23, 0x1F, 0x3C]
   \<and> sent (handleConnection_uplink quietNetwork ''ABCDEFG'' ''edu'' [[0x23, 0x1F, 0x3C]])
       = [''EMPTY.0000.ABCDEFG.edu'']
   \<and> snd (handleDNSRequest \<lparr>now = 0, dial = None, readRes = ReadTimeout, writeOk = True\<rparr>
         \<lparr>sessions = [''ABCDEFG'' \<mapsto> \<lparr>conn = Some 1, lastActive = 0, closed = False\<rparr>],
            backend = [Dialed 1]\<rparr>
         [fqdn ''EMPTY.0000.ABCDEFG.edu''])
       = Reply \<lparr>rcode = RcodeSuccess, answer = [[''EMPTY'']]\<rparr>
   \<and> backend (fst (handleDNSRequest \<lparr>now = 0, dial = None, readRes = ReadTimeout, writeOk = True\<rparr>
         \<lparr>sessions = [''ABCDEFG'' \<mapsto> \<lparr>conn = Some 1, lastActive = 0, closed = False\<rparr>],
            backend = [Dialed 1]\<rparr>
         [fqdn ''EMPTY.0000.ABCDEFG.edu'']))
       = [Dialed 1]"
  by (intro conjI; code_simp)

section \<open>The server: parsing and sessions\<close>

lemma length_splitDot: "length (splitDot s) = Suc (count_list s CHR ''.'')"
proof (induction s)
  case Nil
  then show ?case by simp
next
  case (Cons c s)
  obtain p ps where "splitDot s = p # ps"
    using splitDot_neq_Nil [of s] by (cases "splitDot s") auto
  with Cons show ?case by auto
qed

lemma parseName_None_iff:
  "parseName name = None \<longleftrightarrow> count_list (trimSuffixDot name) CHR ''.'' < 3"
  by (auto simp: parseName_def Let_def length_splitDot)

lemma getSession_live:
  "sessions s sid = Some session \<Longrightarrow> conn session = Some c \<Longrightarrow>
   getSession e s sid = (s, Some session)"
  by (simp add: getSession_def)

lemma getSession_dial_fails:
  "sessions s sid = None \<or> (\<exists>session. sessions s sid = Some session \<and> conn session = None) \<Longrightarrow>
   dial e = None \<Longrightarrow> getSession e s sid = (s, None)"
  by (auto simp: getSession_def reconnect_def)

lemma getSession_dial_ok:
  "sessions s sid = None \<or> (\<exists>session. sessions s sid = Some session \<and> conn session = None) \<Longrightarrow>
   dial e = Some c \<Longrightarrow>
   getSession e s sid =
     (s\<lparr>sessions := (sessions s)(sid \<mapsto> \<lparr>conn = Some c, lastActive = now e, closed = False\<rparr>),
        backend := backend s @ [Dialed c]\<rparr>,
      Some \<lparr>conn = Some c, lastActive = now e, closed = False\<rparr>)"
  by (auto simp: getSession_def reconnect_def)

lemma getSession_conn:
  "getSession e s sid = (s1, Some session) \<Longrightarrow>
     \<exists>c. conn session = Some c \<and> sessions s1 sid = Some session"
  by (auto simp: getSession_def reconnect_def Let_def split: option.splits if_splits)

lemma sentinel_texts:
  "encodeDNSSafe (bytes_of_string ''EMPTY'') = ''IVGVAVCZ''"
  "encodeDNSSafe (bytes_of_string ''CLOSED'') = ''INGE6U2FIQ''"
  "bytes_of_string ''EMPTY'' \<noteq> []" "bytes_of_string ''CLOSED'' \<noteq> []"
  by code_simp+

lemma handleDNSRequest_poll:
  assumes "parseName name = Some (enc, ''ffff'', sid, tld)"
    and "getSession e s sid = (s1, Some session)"
  shows "handleDNSRequest e s [name] =
     (case handlePoll e session (backend s1) of
        (PollPanic, session', fx) \<Rightarrow> (s1, Panic)
      | (PollError, session', fx) \<Rightarrow>
          (s1\<lparr>sessions := (sessions s1)(sid \<mapsto> session'), backend := fx\<rparr>,
           Reply \<lparr>rcode = RcodeServerFailure, answer = []\<rparr>)
      | (PollBytes response, session', fx) \<Rightarrow>
          (s1\<lparr>sessions := (sessions s1)(sid \<mapsto> session'), backend := fx\<rparr>,
           Reply \<lparr>rcode = RcodeSuccess,
                  answer = [if response = [] then [''EMPTY'']
                            else splitDot (encodeDNSSafe response)]\<rparr>))"
  using assms by (simp add: handleDNSRequest_def)

lemma responseChunks_EMPTY: "responseChunks ''EMPTY'' = [''EMPTY'']"
  by (simp add: responseChunks_def)

lemma handleDNSRequest_data:
  assumes "parseName name = Some (enc, sq, sid, tld)" "sq \<noteq> ''ffff''"
    and "getSession e s sid = (s1, Some session)"
  shows "handleDNSRequest e s [name] =
     (case decodeDNSSafe enc of
        None \<Rightarrow> (s1, Reply \<lparr>rcode = RcodeFormatError, answer = []\<rparr>)
      | Some decodedData \<Rightarrow>
          if decodedData \<noteq> [] then
            (case sessionWrite e session decodedData (backend s1) of
               (False, session', fx) \<Rightarrow>
                 (s1\<lparr>sessions := (sessions s1)(sid \<mapsto> session'), backend := fx\<rparr>,
                  Reply \<lparr>rcode = RcodeServerFailure, answer = []\<rparr>)
             | (True, session', fx) \<Rightarrow>
                 (s1\<lparr>sessions := (sessions s1)(sid \<mapsto> session'), backend := fx\<rparr>,
                  Reply \<lparr>rcode = RcodeSuccess, answer = [[''EMPTY'']]\<rparr>))
          else (s1, Reply \<lparr>rcode = RcodeSuccess, answer = [[''EMPTY'']]\<rparr>))"
  using assms unfolding handleDNSRequest_def responseChunks_EMPTY by simp

lemma poll_close_notice:
  assumes "parseName name = Some (enc, ''ffff'', sid, tld)"
    and "sessions s sid = Some session" and "conn session = Some c" and "\<not> closed session"
    and "readRes e = ReadEOF \<or> readRes e = ReadReset"
  shows "snd (handleDNSRequest e s [name])
           = Reply \<lparr>rcode = RcodeSuccess, answer = [[''INGE6U2FIQ'']]\<rparr>"
    and "sessions (fst (handleDNSRequest e s [name])) sid
           = Some (session\<lparr>closed := True, conn := None\<rparr>)"
proof -
  have g: "getSession e s sid = (s, Some session)"
    using assms(2,3) by (rule getSession_live)
  note h = handleDNSRequest_poll [OF assms(1) g]
  show "snd (handleDNSRequest e s [name])
           = Reply \<lparr>rcode = RcodeSuccess, answer = [[''INGE6U2FIQ'']]\<rparr>"
    using assms(3,4,5) by (auto simp: h handlePoll_def sessionClose_def sentinel_texts)
  show "sessions (fst (handleDNSRequest e s [name])) sid
           = Some (session\<lparr>closed := True, conn := None\<rparr>)"
    using assms(3,4,5) by (auto simp: h handlePoll_def sessionClose_def sentinel_texts)
qed

lemma getSession_closed_entry:
  assumes "sessions s sid = Some session" "conn session = None"
  shows "getSession e s sid = getSession e (s\<lparr>sessions := (sessions s)(sid := None)\<rparr>) sid
         \<or> dial e = None"
  using assms by (auto simp: getSession_def reconnect_def split: option.splits)

lemma closed_session_redials:
  assumes "parseName pname = Some (penc, ''ffff'', sid, ptld)"
    and "sessions s sid = Some session" and "conn session = Some c" and "\<not> closed session"
    and "readRes e = ReadEOF \<or> readRes e = ReadReset"
    and "parseName name = Some (enc, sq, sid, tld)"
    and "s' = fst (handleDNSRequest e s [pname])"
  shows "snd (handleDNSRequest e s [pname])
            = Reply \<lparr>rcode = RcodeSuccess, answer = [[''INGE6U2FIQ'']]\<rparr>
       \<and> sessions s' sid = Some (session\<lparr>closed := True, conn := None\<rparr>)
       \<and> (dial e' = None \<longrightarrow>
            handleDNSRequest e' s' [name] = (s', Reply \<lparr>rcode = RcodeServerFailure, answer = []\<rparr>))
       \<and> (dial e' \<noteq> None \<longrightarrow>
            handleDNSRequest e' s' [name]
              = handleDNSRequest e' (s'\<lparr>sessions := (sessions s')(sid := None)\<rparr>) [name])"
proof -
  let ?closed = "session\<lparr>closed := True, conn := None\<rparr>"
  have 1: "sessions s' sid = Some ?closed"
    using poll_close_notice(2) [OF assms(1-5)] assms(7) by simp
  have 2: "handleDNSRequest e' s' [name] = (s', Reply \<lparr>rcode = RcodeServerFailure, answer = []\<rparr>)"
    if "dial e' = None"
  proof -
    have "getSession e' s' sid = (s', None)"
      using 1 that by (intro getSession_dial_fails) simp_all
    then show ?thesis using assms(6) by (simp add: handleDNSRequest_def)
  qed
  have 3: "handleDNSRequest e' s' [name]
              = handleDNSRequest e' (s'\<lparr>sessions := (sessions s')(sid := None)\<rparr>) [name]"
    if "dial e' \<noteq> None"
  proof -
    have "getSession e' s' sid = getSession e' (s'\<lparr>sessions := (sessions s')(sid := None)\<rparr>) sid"
      using getSession_closed_entry [of s' sid ?closed e'] 1 that by simp
    then show ?thesis using assms(6) by (simp add: handleDNSRequest_def)
  qed
  have 0: "snd (handleDNSRequest e s [pname])
            = Reply \<lparr>rcode = RcodeSuccess, answer = [[''INGE6U2FIQ'']]\<rparr>"
    using assms(1-5) by (rule poll_close_notice(1))
  from 0 1 2 3 show ?thesis by blast
qed

section \<open>The server: claims\<close>

text \<open>
  C4, as the specification states it: parsing succeeds if and only if the name has at
  least four nonempty parts and the third from the right is four hexadecimal characters.
  The name \<open>AA.zz.ABCDEFG.edu.\<close> has the sequence \<open>zz\<close>, and it is parsed and served: the
  byte it carries is written to the backend and acknowledged.
\<close>

theorem C4_counterexample:
  "\<not> specWellFormed ''AA.zz.ABCDEFG.edu.''
   \<and> parseName ''AA.zz.ABCDEFG.edu.'' = Some (''AA'', ''zz'', ''ABCDEFG'', ''edu'')
   \<and> snd (handleDNSRequest \<lparr>now = 0, dial = Some 1, readRes = ReadTimeout, writeOk = True\<rparr>
             \<lparr>sessions = Map.empty, backend = []\<rparr> [''AA.zz.ABCDEFG.edu.''])
       = Reply \<lparr>rcode = RcodeSuccess, answer = [[''EMPTY'']]\<rparr>"
  by code_simp

text \<open>
  C4, amended. Parsing succeeds if and only if the name, less one trailing dot, has at
  least four dot-separated parts, that is at least three dots; empty parts count and the
  sequence part is not inspected. A name that fails to parse is answered with FormatError
  and the server is left as it was.
\<close>

theorem C4_parse_iff:
  "(parseName name \<noteq> None \<longleftrightarrow> 3 \<le> count_list (trimSuffixDot name) CHR ''.'')
   \<and> (parseName name = None \<longrightarrow>
        handleDNSRequest e s [name] = (s, Reply \<lparr>rcode = RcodeFormatError, answer = []\<rparr>))"
proof (intro conjI impI)
  show "parseName name \<noteq> None \<longleftrightarrow> 3 \<le> count_list (trimSuffixDot name) CHR ''.''"
    by (simp add: parseName_None_iff not_less)
next
  assume "parseName name = None"
  then show "handleDNSRequest e s [name] = (s, Reply \<lparr>rcode = RcodeFormatError, answer = []\<rparr>)"
    by (simp add: handleDNSRequest_def)
qed

theorem C4_parse_iff_witness:
  "parseName ''AA.ABCDEFG.edu.'' = None
   \<and> handleDNSRequest \<lparr>now = 0, dial = Some 1, readRes = ReadTimeout, writeOk = True\<rparr>
        \<lparr>sessions = Map.empty, backend = []\<rparr> [''AA.ABCDEFG.edu.'']
      = (\<lparr>sessions = Map.empty, backend = []\<rparr>, Reply \<lparr>rcode = RcodeFormatError, answer = []\<rparr>)"
proof -
  have n: "parseName ''AA.ABCDEFG.edu.'' = None" by code_simp
  with C4_parse_iff [of "''AA.ABCDEFG.edu.''"] show ?thesis by blast
qed

text \<open>
  C5, as the specification states it: on a poll, a read timeout yields the TXT answer
  \<open>EMPTY\<close>. \<open>handlePoll\<close> returns the five bytes \<open>EMPTY\<close>, which the handler treats as
  data and encodes: the answer is \<open>IVGVAVCZ\<close>.
\<close>

theorem C5_counterexample:
  "snd (handleDNSRequest \<lparr>now = 0, dial = None, readRes = ReadTimeout, writeOk = True\<rparr>
          \<lparr>sessions = [''ABCDEFG'' \<mapsto> \<lparr>conn = Some 1, lastActive = 0, closed = False\<rparr>],
             backend = [Dialed 1]\<rparr>
          [''AA.ffff.ABCDEFG.edu.''])
     = Reply \<lparr>rcode = RcodeSuccess, answer = [[''IVGVAVCZ'']]\<rparr>
   \<and> snd (handleDNSRequest \<lparr>now = 0, dial = None, readRes = ReadTimeout, writeOk = True\<rparr>
          \<lparr>sessions = [''ABCDEFG'' \<mapsto> \<lparr>conn = Some 1, lastActive = 0, closed = False\<rparr>],
             backend = [Dialed 1]\<rparr>
          [''AA.ffff.ABCDEFG.edu.''])
     \<noteq> Reply \<lparr>rcode = RcodeSuccess, answer = [[''EMPTY'']]\<rparr>"
  by code_simp

text \<open>
  C5, amended. For a poll on a session with a live backend connection: a read timeout
  and a zero-byte read yield the TXT answer \<open>IVGVAVCZ\<close>, the base32 text of the bytes
  \<open>EMPTY\<close>; EOF or a connection reset marks the session closed, empties its connection
  slot and yields \<open>INGE6U2FIQ\<close>, the base32 text of the bytes \<open>CLOSED\<close>; any other read
  error yields ServerFailure; nonempty data is base32-encoded and split on dots into the
  strings of the TXT record.
\<close>

theorem C5_poll_answers:
  assumes "parseName name = Some (enc, ''ffff'', sid, tld)"
    and "sessions s sid = Some session" and "conn session = Some c" and "\<not> closed session"
  shows "(readRes e = ReadTimeout \<or> readRes e = ReadData [] \<longrightarrow>
            snd (handleDNSRequest e s [name])
              = Reply \<lparr>rcode = RcodeSuccess, answer = [[''IVGVAVCZ'']]\<rparr>)
       \<and> (readRes e = ReadEOF \<or> readRes e = ReadReset \<longrightarrow>
            snd (handleDNSRequest e s [name])
              = Reply \<lparr>rcode = RcodeSuccess, answer = [[''INGE6U2FIQ'']]\<rparr>
            \<and> sessions (fst (handleDNSRequest e s [name])) sid
              = Some (session\<lparr>closed := True, conn := None\<rparr>))
       \<and> (readRes e = ReadError \<longrightarrow>
            snd (handleDNSRequest e s [name])
              = Reply \<lparr>rcode = RcodeServerFailure, answer = []\<rparr>)
       \<and> (\<forall>d. readRes e = ReadData d \<and> d \<noteq> [] \<longrightarrow>
            snd (handleDNSRequest e s [name])
              = Reply \<lparr>rcode = RcodeSuccess,
                       answer = [splitDot (encodeDNSSafe (take maxChunkSize d))]\<rparr>)
       \<and> encodeDNSSafe (bytes_of_string ''EMPTY'') = ''IVGVAVCZ''
       \<and> encodeDNSSafe (bytes_of_string ''CLOSED'') = ''INGE6U2FIQ''"
proof -
  have g: "getSession e s sid = (s, Some session)"
    using assms(2,3) by (rule getSession_live)
  note h = handleDNSRequest_poll [OF assms(1) g]
  show ?thesis
    using assms(3,4)
    by (auto simp: h handlePoll_def sessionClose_def sentinel_texts maxChunkSize_def)
qed

theorem C5_poll_answers_witness:
  "parseName ''AA.ffff.ABCDEFG.edu.'' = Some (''AA'', ''ffff'', ''ABCDEFG'', ''edu'')
   \<and> snd (handleDNSRequest \<lparr>now = 0, dial = None, readRes = ReadEOF, writeOk = True\<rparr>
          \<lparr>sessions = [''ABCDEFG'' \<mapsto> \<lparr>conn = Some 1, lastActive = 0, closed = False\<rparr>],
             backend = [Dialed 1]\<rparr>
          [''AA.ffff.ABCDEFG.edu.''])
     = Reply \<lparr>rcode = RcodeSuccess, answer = [[''INGE6U2FIQ'']]\<rparr>"
proof -
  have p: "parseName ''AA.ffff.ABCDEFG.edu.'' = Some (''AA'', ''ffff'', ''ABCDEFG'', ''edu'')"
    by code_simp
  show ?thesis
    using C5_poll_answers [OF p, of
        "\<lparr>sessions = [''ABCDEFG'' \<mapsto> \<lparr>conn = Some 1, lastActive = 0, closed = False\<rparr>],
           backend = [Dialed 1]\<rparr>"
        "\<lparr>conn = Some 1, lastActive = 0, closed = False\<rparr>" 1
        "\<lparr>now = 0, dial = None, readRes = ReadEOF, writeOk = True\<rparr>"] p
    by simp
qed

text \<open>
  C6. For a data query whose payload decodes to nonempty bytes, on the session
  \<open>getSession\<close> returned: a successful backend write is acknowledged with the
  single-string TXT answer \<open>EMPTY\<close>; a failed write closes the backend connection, sets
  the session's connection slot to nil and yields ServerFailure.
\<close>

theorem C6_data_write:
  assumes "parseName name = Some (enc, sq, sid, tld)" and "sq \<noteq> ''ffff''"
    and "decodeDNSSafe enc = Some d" and "d \<noteq> []"
    and "getSession e s sid = (s1, Some session)"
  shows "(writeOk e \<longrightarrow>
            snd (handleDNSRequest e s [name])
              = Reply \<lparr>rcode = RcodeSuccess, answer = [[''EMPTY'']]\<rparr>)
       \<and> (\<not> writeOk e \<longrightarrow>
            (\<exists>c. conn session = Some c
               \<and> snd (handleDNSRequest e s [name])
                   = Reply \<lparr>rcode = RcodeServerFailure, answer = []\<rparr>
               \<and> sessions (fst (handleDNSRequest e s [name])) sid
                   = Some (session\<lparr>conn := None\<rparr>)
               \<and> backend (fst (handleDNSRequest e s [name]))
                   = backend s1 @ [ConnClosed c]))"
proof -
  obtain c where c: "conn session = Some c"
    using getSession_conn [OF assms(5)] by blast
  show ?thesis
    using assms(3,4) c
    by (simp add: handleDNSRequest_data [OF assms(1,2,5)] sessionWrite_def)
qed

theorem C6_data_write_witness:
  "parseName ''IE.0000.ABCDEFG.edu.'' = Some (''IE'', ''0000'', ''ABCDEFG'', ''edu'')
   \<and> decodeDNSSafe ''IE'' = Some [0x41]
   \<and> snd (handleDNSRequest \<lparr>now = 7, dial = Some 1, readRes = ReadTimeout, writeOk = False\<rparr>
            \<lparr>sessions = Map.empty, backend = []\<rparr> [''IE.0000.ABCDEFG.edu.''])
       = Reply \<lparr>rcode = RcodeServerFailure, answer = []\<rparr>
   \<and> sessions (fst (handleDNSRequest \<lparr>now = 7, dial = Some 1, readRes = ReadTimeout, writeOk = False\<rparr>
            \<lparr>sessions = Map.empty, backend = []\<rparr> [''IE.0000.ABCDEFG.edu.''])) ''ABCDEFG''
       = Some \<lparr>conn = None, lastActive = 7, closed = False\<rparr>
   \<and> backend (fst (handleDNSRequest \<lparr>now = 7, dial = Some 1, readRes = ReadTimeout, writeOk = False\<rparr>
            \<lparr>sessions = Map.empty, backend = []\<rparr> [''IE.0000.ABCDEFG.edu.'']))
       = [Dialed 1, ConnClosed 1]
   \<and> snd (handleDNSRequest \<lparr>now = 7, dial = Some 1, readRes = ReadTimeout, writeOk = True\<rparr>
            \<lparr>sessions = Map.empty, backend = []\<rparr> [''IE.0000.ABCDEFG.edu.''])
       = Reply \<lparr>rcode = RcodeSuccess, answer = [[''EMPTY'']]\<rparr>"
proof -
  let ?e = "\<lparr>now = 7, dial = Some 1, readRes = ReadTimeout, writeOk = False\<rparr>"
  let ?e' = "\<lparr>now = 7, dial = Some 1, readRes = ReadTimeout, writeOk = True\<rparr>"
  let ?s = "\<lparr>sessions = Map.empty, backend = []\<rparr>"
  let ?session = "\<lparr>conn = Some 1, lastActive = 7, closed = False\<rparr>"
  let ?s1 = "?s\<lparr>sessions := (sessions ?s)(''ABCDEFG'' \<mapsto> ?session), backend := backend ?s @ [Dialed 1]\<rparr>"
  have p: "parseName ''IE.0000.ABCDEFG.edu.'' = Some (''IE'', ''0000'', ''ABCDEFG'', ''edu'')"
    by code_simp
  have q: "''0000'' \<noteq> ''ffff''" by simp
  have d: "decodeDNSSafe ''IE'' = Some [0x41]" by code_simp
  have n: "[0x41 :: byte] \<noteq> []" by simp
  have g: "getSession ?e ?s ''ABCDEFG'' = (?s1, Some ?session)"
    using getSession_dial_ok [of ?s "''ABCDEFG''" ?e 1] by simp
  have g': "getSession ?e' ?s ''ABCDEFG'' = (?s1, Some ?session)"
    using getSession_dial_ok [of ?s "''ABCDEFG''" ?e' 1] by simp
  show ?thesis
    using C6_data_write [OF p q d n g] C6_data_write [OF p q d n g'] p d
    by simp
qed




text \<open>
  C2. After the server has marked a session closed, every later poll for it is answered
  \<open>CLOSED\<close> and every later data query yields ServerFailure, until the entry is evicted.
  \<open>handlePoll\<close> has the branch that answers \<open>CLOSED\<close> for a closed session and
  \<open>Session.Write\<close> fails on a nil connection, but neither is reached: \<open>Session.Close\<close>
  sets the connection to nil, and \<open>getSession\<close> replaces an entry whose connection is nil
  by a new session on a new backend connection. A poll meets EOF on a new session and is
  answered with the close notice; the next poll for the same session id is answered
  \<open>IVGVAVCZ\<close> (no data) by an open session on a second connection, and a data query in
  its place is written to that second connection and acknowledged
  (\<open>closed_session_redials\<close> has the general statement).
\<close>

theorem C2_redial_after_close:
  "sessions (fst (handleDNSRequest \<lparr>now = 0, dial = Some 1, readRes = ReadEOF, writeOk = True\<rparr>
               \<lparr>sessions = Map.empty, backend = []\<rparr> [''AA.ffff.ABCDEFG.edu.''])) ''ABCDEFG''
     = Some \<lparr>conn = None, lastActive = 0, closed = True\<rparr>
   \<and> snd (handleDNSRequest \<lparr>now = 0, dial = Some 1, readRes = ReadEOF, writeOk = True\<rparr>
               \<lparr>sessions = Map.empty, backend = []\<rparr> [''AA.ffff.ABCDEFG.edu.''])
     = Reply \<lparr>rcode = RcodeSuccess, answer = [[''INGE6U2FIQ'']]\<rparr>
   \<and> snd (handleDNSRequest \<lparr>now = 1, dial = Some 2, readRes = ReadTimeout, writeOk = True\<rparr>
          (fst (handleDNSRequest \<lparr>now = 0, dial = Some 1, readRes = ReadEOF, writeOk = True\<rparr>
               \<lparr>sessions = Map.empty, backend = []\<rparr> [''AA.ffff.ABCDEFG.edu.'']))
          [''AA.ffff.ABCDEFG.edu.''])
     = Reply \<lparr>rcode = RcodeSuccess, answer = [[''IVGVAVCZ'']]\<rparr>
   \<and> sessions (fst (handleDNSRequest \<lparr>now = 1, dial = Some 2, readRes = ReadTimeout, writeOk = True\<rparr>
          (fst (handleDNSRequest \<lparr>now = 0, dial = Some 1, readRes = ReadEOF, writeOk = True\<rparr>
               \<lparr>sessions = Map.empty, backend = []\<rparr> [''AA.ffff.ABCDEFG.edu.'']))
          [''AA.ffff.ABCDEFG.edu.''])) ''ABCDEFG''
     = Some \<lparr>conn = Some 2, lastActive = 1, closed = False\<rparr>
   \<and> snd (handleDNSRequest \<lparr>now = 1, dial = Some 2, readRes = ReadTimeout, writeOk = True\<rparr>
          (fst (handleDNSRequest \<lparr>now = 0, dial = Some 1, readRes = ReadEOF, writeOk = True\<rparr>
               \<lparr>sessions = Map.empty, backend = []\<rparr> [''AA.ffff.ABCDEFG.edu.'']))
          [''IE.0000.ABCDEFG.edu.''])
     = Reply \<lparr>rcode = RcodeSuccess, answer = [[''EMPTY'']]\<rparr>
   \<and> backend (fst (handleDNSRequest \<lparr>now = 1, dial = Some 2, readRes = ReadTimeout, writeOk = True\<rparr>
          (fst (handleDNSRequest \<lparr>now = 0, dial = Some 1, readRes = ReadEOF, writeOk = True\<rparr>
               \<lparr>sessions = Map.empty, backend = []\<rparr> [''AA.ffff.ABCDEFG.edu.'']))
          [''IE.0000.ABCDEFG.edu.'']))
     = [Dialed 1, ConnClosed 1, Dialed 2, Wrote 2 [0x41]]"
  by (intro conjI; code_simp)

section \<open>The client: names, sequence numbers and the decoder's tolerance\<close>

lemma joinDot_splitDot: "joinDot (splitDot s) = s"
proof (induction s)
  case Nil
  then show ?case by simp
next
  case (Cons c s)
  obtain p ps where q: "splitDot s = p # ps"
    using splitDot_neq_Nil [of s] by (cases "splitDot s") auto
  with Cons show ?case by (cases ps) auto
qed

lemma fqdn_append_dot: "s \<noteq> [] \<Longrightarrow> last s \<noteq> CHR ''.'' \<Longrightarrow> fqdn s = s @ ''.''"
  by (simp add: fqdn_def)

lemma trimSuffixDot_append_dot: "trimSuffixDot (s @ ''.'') = s"
  by (simp add: trimSuffixDot_def)

lemma parseName_compose:
  assumes "CHR ''.'' \<notin> set sq" "CHR ''.'' \<notin> set sid" "CHR ''.'' \<notin> set tld" "tld \<noteq> []"
  shows "parseName (fqdn (enc @ ''.'' @ sq @ ''.'' @ sid @ ''.'' @ tld)) = Some (enc, sq, sid, tld)"
proof -
  define name where "name = enc @ ''.'' @ sq @ ''.'' @ sid @ ''.'' @ tld"
  have "last tld \<in> set tld" using assms(4) by simp
  with assms(3) have "last tld \<noteq> CHR ''.''" by metis
  moreover have "last name = last tld" using assms(4) by (simp add: name_def)
  moreover have "name \<noteq> []" by (simp add: name_def)
  ultimately have f: "fqdn name = name @ ''.''" by (intro fqdn_append_dot) simp_all
  have s: "splitDot name = splitDot enc @ [sq, sid, tld]"
    using assms(1-3) by (simp add: name_def splitDot_append splitDot_nodot)
  obtain p ps where e: "splitDot enc = p # ps"
    using splitDot_neq_Nil [of enc] by (cases "splitDot enc") auto
  have "parseName (fqdn name) = Some (enc, sq, sid, tld)"
    unfolding parseName_def f trimSuffixDot_append_dot s Let_def
    using joinDot_splitDot [of enc] by (simp add: nth_append e)
  then show ?thesis by (simp add: name_def)
qed

lemma hexDigit_nodot: "n < 16 \<Longrightarrow> hexDigit n \<noteq> CHR ''.''"
proof -
  assume "n < 16"
  then have "hexDigit n \<in> set ''0123456789abcdef''"
    unfolding hexDigit_def by (intro nth_mem) simp
  then show ?thesis by auto
qed

lemma unat_and15: "unat ((x :: 16 word) AND 15) < 16"
proof -
  have "unat (x AND 15) \<le> unat (15 :: 16 word)"
    by (rule word_and_le1 [THEN word_le_nat_alt [THEN iffD1]])
  then show ?thesis by simp
qed

lemma hex4_nodot: "CHR ''.'' \<notin> set (hex4 w)"
  by (simp add: hex4_def hexDigit_nodot [THEN not_sym] unat_and15)

lemma seqField_dataName:
  assumes "CHR ''.'' \<notin> set sid" "CHR ''.'' \<notin> set tld" "tld \<noteq> []"
  shows "seqField (dataName sid tld sub w) = Some (hex4 w)"
  using parseName_compose [where sq = "hex4 w" and enc = "encodeDNSSafe sub", OF hex4_nodot assms]
  by (simp add: seqField_def dataName_def)

lemma seqField_pollName:
  assumes "CHR ''.'' \<notin> set sid" "CHR ''.'' \<notin> set tld" "tld \<noteq> []"
  shows "parseName (fqdn (pollName sid tld)) = Some (''AA'', ''ffff'', sid, tld)"
    and "seqField (pollName sid tld) = Some ''ffff''"
proof -
  have "CHR ''.'' \<notin> set ''ffff''" by simp
  from parseName_compose [where enc = "''AA''", OF this assms]
  show "parseName (fqdn (pollName sid tld)) = Some (''AA'', ''ffff'', sid, tld)"
    by (simp add: pollName_def)
  then show "seqField (pollName sid tld) = Some ''ffff''"
    by (simp add: seqField_def)
qed

lemma hexDigit_f: "n < 16 \<Longrightarrow> hexDigit n = CHR ''f'' \<Longrightarrow> n = 15"
proof -
  assume n: "n < 16" and f: "hexDigit n = CHR ''f''"
  have d: "distinct ''0123456789abcdef''" by simp
  show "n = 15"
    using nth_eq_iff_index_eq [OF d, of n 15] n f by (simp add: hexDigit_def)
qed

lemma nibble_bits:
  fixes w :: "16 word"
  assumes "unat (drop_bit k w AND 15) = 15" "i < 4"
  shows "bit w (k + i)"
proof -
  have "drop_bit k w AND 15 = 15"
    using assms(1) by (simp add: word_unat_eq_iff)
  then have "bit (drop_bit k w AND 15) i = bit (15 :: 16 word) i" by simp
  moreover have "bit (15 :: 16 word) i"
    using assms(2) by (auto simp: less_Suc_eq eval_nat_numeral bit_simps)
  ultimately show ?thesis by (simp add: bit_simps)
qed


lemma hex4_ffff:
  assumes "hex4 w = ''ffff''"
  shows "w = 0xFFFF"
proof -
  from assms have d:
    "hexDigit (unat (drop_bit 12 w AND 15)) = CHR ''f''"
    "hexDigit (unat (drop_bit 8 w AND 15)) = CHR ''f''"
    "hexDigit (unat (drop_bit 4 w AND 15)) = CHR ''f''"
    "hexDigit (unat (drop_bit 0 w AND 15)) = CHR ''f''"
    by (simp_all add: hex4_def)
  have
    "unat (drop_bit 12 w AND 15) = 15" "unat (drop_bit 8 w AND 15) = 15"
    "unat (drop_bit 4 w AND 15) = 15" "unat (drop_bit 0 w AND 15) = 15"
    by (rule hexDigit_f [OF unat_and15 d(1)], rule hexDigit_f [OF unat_and15 d(2)],
        rule hexDigit_f [OF unat_and15 d(3)], rule hexDigit_f [OF unat_and15 d(4)])
  then have b: "bit w (12 + i)" "bit w (8 + i)" "bit w (4 + i)" "bit w (0 + i)" if "i < 4" for i
    using that by (blast intro: nibble_bits)+
  show ?thesis
  proof (rule bit_word_eqI)
    fix m assume "m < LENGTH(16)"
    then have m: "m < 16" by simp
    then consider "m < 4" | "4 \<le> m" "m < 8" | "8 \<le> m" "m < 12" | "12 \<le> m" "m < 16"
      by linarith
    then have "bit w m"
    proof cases
      case 1
      with b(4) [of m] show ?thesis by simp
    next
      case 2
      with b(3) [of "m - 4"] show ?thesis by simp
    next
      case 3
      with b(2) [of "m - 8"] show ?thesis by simp
    next
      case 4
      with b(1) [of "m - 12"] show ?thesis by simp
    qed
    moreover have "bit (0xFFFF :: 16 word) m"
    proof -
      have e: "(0xFFFF :: 16 word) = - 1" by simp
      show ?thesis unfolding e using m by (simp add: bit_simps)
    qed
    ultimately show "bit w m = bit (0xFFFF :: 16 word) m" by simp
  qed
qed

lemma seq_below_ffff:
  assumes "n < 65535"
  shows "hex4 (of_nat n) \<noteq> ''ffff''"
proof
  assume "hex4 (of_nat n) = ''ffff''"
  then have "(of_nat n :: 16 word) = 0xFFFF" by (rule hex4_ffff)
  then have "unat (of_nat n :: 16 word) = 65535" by simp
  moreover have "unat (of_nat n :: 16 word) = n"
    using assms by (simp add: unat_of_nat)
  ultimately show False using assms by simp
qed

lemma sent_sendQuery: "sent (snd (sendQuery net name w)) = sent w @ [name]"
  by (simp add: sendQuery_def split: prod.splits)

lemma sendSubChunks_log:
  "\<exists>m \<le> length chunks.
      sent (snd (sendSubChunks net sid tld sq i chunks w))
        = sent w @ map (\<lambda>p. dataName sid tld (chunks ! p) (sq + of_nat (i + p))) [0..<m]
      \<and> (chunks \<noteq> [] \<longrightarrow> 0 < m)"
proof (induction chunks arbitrary: i w)
  case Nil
  then show ?case by simp
next
  case (Cons sub chunks)
  let ?name = "dataName sid tld sub (sq + of_nat i)"
  let ?f = "\<lambda>p. dataName sid tld ((sub # chunks) ! p) (sq + of_nat (i + p))"
  obtain r w' where sq: "sendQuery net ?name w = (r, w')"
    by (cases "sendQuery net ?name w") auto
  have w': "sent w' = sent w @ [?name]"
    using sent_sendQuery [of net ?name w] sq by simp
  show ?case
  proof (cases r)
    case None
    have "sent (snd (sendSubChunks net sid tld sq i (sub # chunks) w)) = sent w @ map ?f [0..<1]"
      using None sq w' by simp
    then show ?thesis by (intro exI [of _ 1]) simp
  next
    case (Some b)
    from Cons.IH [of "Suc i" w'] obtain m where m: "m \<le> length chunks"
      and s: "sent (snd (sendSubChunks net sid tld sq (Suc i) chunks w'))
          = sent w' @ map (\<lambda>p. dataName sid tld (chunks ! p) (sq + of_nat (Suc i + p))) [0..<m]"
      by blast
    have "sent (snd (sendSubChunks net sid tld sq i (sub # chunks) w)) = sent w @ map ?f [0..<Suc m]"
      using Some sq w' s by (simp add: map_upt_Suc add.assoc add.left_commute del: upt_Suc)
    with m show ?thesis by (intro exI [of _ "Suc m"]) simp
  qed
qed

lemma take_chunk_neq_Nil: "c \<noteq> [] \<Longrightarrow> splitDataIntoChunks c 100 \<noteq> []"
  by (simp add: splitDataIntoChunks_def chunksOf_neq_Nil)

lemma uplink_log:
  "\<exists>ys. sent (uplink net sid tld sq reads w) = sent w @ ys
      \<and> (\<forall>p < length ys. \<exists>n sub. n \<le> p \<and> ys ! p = dataName sid tld sub (sq + of_nat n))"
proof (induction reads arbitrary: sq w)
  case Nil
  then show ?case by simp
next
  case (Cons rd reads)
  let ?chunk = "take maxChunkSize rd"
  show ?case
  proof (cases "?chunk = []")
    case True
    with Cons.IH [of sq w] show ?thesis by simp
  next
    case False
    let ?chunks = "splitDataIntoChunks ?chunk 100"
    obtain ok w' where sc: "sendChunk net sid tld ?chunk sq w = (ok, w')"
      by (cases "sendChunk net sid tld ?chunk sq w") auto
    from sendSubChunks_log [of ?chunks net sid tld sq 0 w] take_chunk_neq_Nil [OF False]
    obtain m where m: "0 < m"
      and zs: "sent w' = sent w @ map (\<lambda>p. dataName sid tld (?chunks ! p) (sq + of_nat p)) [0..<m]"
      using sc by (auto simp: sendChunk_def)
    let ?zs = "map (\<lambda>p. dataName sid tld (?chunks ! p) (sq + of_nat p)) [0..<m]"
    have zs_ok: "\<exists>n sub. n \<le> p \<and> ?zs ! p = dataName sid tld sub (sq + of_nat n)"
      if "p < length ?zs" for p
      using that by (intro exI [of _ p]) auto
    show ?thesis
    proof (cases ok)
      case False
      with \<open>?chunk \<noteq> []\<close> sc have "uplink net sid tld sq (rd # reads) w = w'" by simp
      then have "sent (uplink net sid tld sq (rd # reads) w) = sent w @ ?zs"
        using zs by simp
      moreover have "\<forall>p < length ?zs. \<exists>n sub. n \<le> p \<and> ?zs ! p = dataName sid tld sub (sq + of_nat n)"
        using zs_ok by blast
      ultimately show ?thesis by blast
    next
      case True
      with \<open>?chunk \<noteq> []\<close> sc
      have u: "uplink net sid tld sq (rd # reads) w = uplink net sid tld (sq + 1) reads w'" by simp
      from Cons.IH [of "sq + 1" w'] obtain ys where
        ys: "sent (uplink net sid tld (sq + 1) reads w') = sent w' @ ys"
        and ys_ok: "\<And>p. p < length ys \<Longrightarrow>
            \<exists>n sub. n \<le> p \<and> ys ! p = dataName sid tld sub (sq + 1 + of_nat n)"
        by blast
      have "\<exists>n sub. n \<le> p \<and> (?zs @ ys) ! p = dataName sid tld sub (sq + of_nat n)"
        if p: "p < length (?zs @ ys)" for p
      proof (cases "p < length ?zs")
        case True
        with zs_ok [OF True] show ?thesis by (simp add: nth_append)
      next
        case False
        then have q: "p - length ?zs < length ys" using p by simp
        from ys_ok [OF q] obtain n sub where n: "n \<le> p - length ?zs"
          and e: "ys ! (p - length ?zs) = dataName sid tld sub (sq + 1 + of_nat n)" by blast
        have "Suc n \<le> p" using n m False by simp
        moreover have "(?zs @ ys) ! p = dataName sid tld sub (sq + of_nat (Suc n))"
          using False e by (simp add: nth_append add.assoc)
        ultimately show ?thesis by blast
      qed
      moreover have "sent (uplink net sid tld sq (rd # reads) w) = sent w @ (?zs @ ys)"
        using u ys zs by simp
      ultimately show ?thesis by blast
    qed
  qed
qed

lemma sendQuery_quiet:
  "sendQuery quietNetwork name w = (Some [], \<lparr>exchanges = Suc (exchanges w), sent = sent w @ [name]\<rparr>)"
  by (simp add: sendQuery_def maxRetries_def quietNetwork_def eval_nat_numeral)

lemma sendSubChunks_quiet:
  "sendSubChunks quietNetwork sid tld sq i chunks w =
     (True, \<lparr>exchanges = exchanges w + length chunks,
             sent = sent w @ map (\<lambda>j. dataName sid tld (chunks ! j) (sq + of_nat (i + j)))
                               [0..<length chunks]\<rparr>)"
proof (induction chunks arbitrary: i w)
  case Nil
  then show ?case by simp
next
  case (Cons sub chunks)
  show ?case
    by (simp add: sendQuery_quiet Cons.IH map_upt_Suc add.assoc add.left_commute del: upt_Suc)
qed

lemma sendChunk_quiet_byte:
  "sendChunk quietNetwork sid tld [b] sq w =
     (True, \<lparr>exchanges = Suc (exchanges w), sent = sent w @ [dataName sid tld [b] sq]\<rparr>)"
proof -
  have c: "splitDataIntoChunks [b] 100 = [[b]]"
    by (simp add: splitDataIntoChunks_def chunksOf.simps [of 100 "[b]"])
  show ?thesis
    unfolding sendChunk_def c by (simp only: sendSubChunks_quiet) simp
qed

lemma uplink_quiet_bytes:
  "sent (uplink quietNetwork sid tld sq (replicate n [b]) w)
     = sent w @ map (\<lambda>j. dataName sid tld [b] (sq + of_nat j)) [0..<n]"
proof (induction n arbitrary: sq w)
  case 0
  then show ?case by simp
next
  case (Suc n)
  have t: "take maxChunkSize [b] = [b]" by (simp add: maxChunkSize_def)
  show ?case
    by (simp add: t sendChunk_quiet_byte Suc.IH map_upt_Suc add.assoc del: upt_Suc)
qed











section \<open>The client: claims\<close>

text \<open>
  C3. The subchunks of one read carry the sequence numbers \<open>ctr, ctr+1, ...\<close>
  (\<open>sendSubChunks_quiet\<close>), and no sequence value is reused within a connection. The
  counter advances by one per read, not by the number of subchunks: two reads of 101 bytes,
  two subchunks each, send the sequence numbers 0, 1 and then 1, 2.
\<close>

theorem C3_sequence_reuse:
  "map length (splitDataIntoChunks (take maxChunkSize (replicate 101 0x41)) 100) = [100, 1]
   \<and> map seqField (sent (handleConnection_uplink quietNetwork ''ABCDEFG'' ''edu''
                          [replicate 101 0x41, replicate 101 0x41]))
       = [Some ''0000'', Some ''0001'', Some ''0001'', Some ''0002'']"
  by (intro conjI; code_simp)

text \<open>
  C8, as the specification states it: no data query ever carries the sequence \<open>ffff\<close>.
  The counter is a \<open>uint16\<close> that nothing stops at \<open>0xfffe\<close>: of 65536 reads of one byte
  each, the last is sent as \<open>IE.ffff.ABCDEFG.edu\<close>, which the server takes for a poll.
\<close>

theorem C8_counterexample:
  "''IE.ffff.ABCDEFG.edu''
     \<in> set (sent (handleConnection_uplink quietNetwork ''ABCDEFG'' ''edu'' (replicate 65536 [0x41])))
   \<and> seqField ''IE.ffff.ABCDEFG.edu'' = Some ''ffff''"
proof
  let ?f = "\<lambda>j. dataName ''ABCDEFG'' ''edu'' [0x41] (0 + of_nat j)"
  have "''IE.ffff.ABCDEFG.edu'' = dataName ''ABCDEFG'' ''edu'' [0x41] 0xFFFF"
    by code_simp
  moreover have "(0 + of_nat 65535 :: 16 word) = 0xFFFF"
    by simp
  ultimately have n: "''IE.ffff.ABCDEFG.edu'' = ?f 65535"
    by (simp only:)
  have "(65535 :: nat) \<in> {0..<65536}" by simp
  then have "(65535 :: nat) \<in> set [0..<65536]" by (simp only: set_upt)
  then have mem: "?f 65535 \<in> set (map ?f [0..<65536])"
    by (simp only: set_map) (rule imageI)
  have u: "sent (handleConnection_uplink quietNetwork ''ABCDEFG'' ''edu'' (replicate 65536 [0x41]))
      = map ?f [0..<65536]"
    by (simp only: handleConnection_uplink_def uplink_quiet_bytes wire.select_convs append_Nil)
  show "''IE.ffff.ABCDEFG.edu''
     \<in> set (sent (handleConnection_uplink quietNetwork ''ABCDEFG'' ''edu'' (replicate 65536 [0x41])))"
    by (subst u, subst n) (rule mem)
  show "seqField ''IE.ffff.ABCDEFG.edu'' = Some ''ffff''"
    by code_simp
qed

text \<open>
  C8, amended. Nothing in the client keeps the counter, a \<open>uint16\<close> that wraps, away
  from \<open>0xffff\<close>. A connection that sends at most 65535 data queries sends none whose
  sequence field is \<open>ffff\<close>: the sequence number of a data query is at most the number
  of data queries sent before it. A poll query always carries \<open>ffff\<close>. The session id and
  the TLD hold no dot and the TLD is not empty, as the generated ids and \<open>edu\<close> are.
\<close>

theorem C8_no_ffff_before_wrap:
  assumes "length (sent (handleConnection_uplink net sid tld reads)) \<le> 65535"
    and "CHR ''.'' \<notin> set sid" and "CHR ''.'' \<notin> set tld" and "tld \<noteq> []"
  shows "(\<forall>q \<in> set (sent (handleConnection_uplink net sid tld reads)). seqField q \<noteq> Some ''ffff'')
       \<and> seqField (pollName sid tld) = Some ''ffff''"
proof (intro conjI ballI)
  fix q assume q: "q \<in> set (sent (handleConnection_uplink net sid tld reads))"
  from uplink_log [of net sid tld 0 reads "\<lparr>exchanges = 0, sent = []\<rparr>"]
  obtain ys where ys: "sent (handleConnection_uplink net sid tld reads) = ys"
    and ok: "\<And>p. p < length ys \<Longrightarrow> \<exists>n sub. n \<le> p \<and> ys ! p = dataName sid tld sub (0 + of_nat n)"
    by (auto simp: handleConnection_uplink_def)
  from q ys obtain p where p: "p < length ys" "q = ys ! p"
    by (auto simp: in_set_conv_nth)
  from ok [OF p(1)] obtain n sub where n: "n \<le> p" and e: "q = dataName sid tld sub (of_nat n)"
    using p(2) by auto
  from p(1) ys assms(1) n have "n < 65535" by simp
  then have "hex4 (of_nat n) \<noteq> ''ffff''" by (rule seq_below_ffff)
  then show "seqField q \<noteq> Some ''ffff''"
    by (simp add: e seqField_dataName [OF assms(2-4)])
next
  show "seqField (pollName sid tld) = Some ''ffff''"
    using assms(2-4) by (rule seqField_pollName(2))
qed

theorem C8_no_ffff_before_wrap_witness:
  "length (sent (handleConnection_uplink quietNetwork ''ABCDEFG'' ''edu''
                   [replicate 101 0x41, replicate 101 0x41])) \<le> 65535
   \<and> ''IE.0002.ABCDEFG.edu''
        \<in> set (sent (handleConnection_uplink quietNetwork ''ABCDEFG'' ''edu''
                   [replicate 101 0x41, replicate 101 0x41]))
   \<and> seqField ''IE.0002.ABCDEFG.edu'' \<noteq> Some ''ffff''
   \<and> seqField (pollName ''ABCDEFG'' ''edu'') = Some ''ffff''"
proof -
  let ?X = "sent (handleConnection_uplink quietNetwork ''ABCDEFG'' ''edu''
                   [replicate 101 0x41, replicate 101 0x41])"
  have "length ?X = 4" by code_simp
  then have l: "length ?X \<le> 65535" by simp
  have a: "CHR ''.'' \<notin> set ''ABCDEFG''" and b: "CHR ''.'' \<notin> set ''edu''" and c: "''edu'' \<noteq> []"
    by simp_all
  have m: "''IE.0002.ABCDEFG.edu'' \<in> set ?X" by code_simp
  from C8_no_ffff_before_wrap [OF l a b c] m l show ?thesis by blast
qed




end
